theory Spec2Isabelle
  imports Complex_Main
begin

section \<open>Python values and errors\<close>

text \<open>
  The development embeds the hotkey binding functions, the hotkey listener callbacks, the
  recording session controller and the voice-activity segmentation of \<^verbatim>\<open>whisprbar.py\<close>.
  Python exceptions are values: a function that can raise returns \<open>py_error + 'a\<close>.
  Strings are lists of 8-bit characters; \<open>upper\<close> and \<open>strip\<close> follow Python on ASCII text
  (the two Latin-1 blanks are stripped as well, other non-ASCII characters are left alone).
  numpy's float32 arithmetic is idealised as arithmetic on \<open>real\<close>.
\<close>

datatype py_error = IndexError | StreamError string | DeviceError string

subsection \<open>String helpers: \<^verbatim>\<open>str.strip\<close>, \<^verbatim>\<open>str.upper\<close>, \<^verbatim>\<open>str.split\<close>, \<^verbatim>\<open>str.join\<close>\<close>

definition is_space :: "char \<Rightarrow> bool" where
  "is_space c \<longleftrightarrow> c \<in> set [CHR 0x09, CHR 0x0A, CHR 0x0B, CHR 0x0C, CHR 0x0D,
      CHR 0x1C, CHR 0x1D, CHR 0x1E, CHR 0x1F, CHR 0x20, CHR 0x85, CHR 0xA0]"

definition strip :: "string \<Rightarrow> string" where
  "strip s = rev (dropWhile is_space (rev (dropWhile is_space s)))"

definition upper_char :: "char \<Rightarrow> char" where
  "upper_char c =
     (case map_of (zip ''abcdefghijklmnopqrstuvwxyz'' ''ABCDEFGHIJKLMNOPQRSTUVWXYZ'') c of
        Some u \<Rightarrow> u | None \<Rightarrow> c)"

definition upper :: "string \<Rightarrow> string" where
  "upper s = map upper_char s"

fun split_on :: "char \<Rightarrow> string \<Rightarrow> string list" where
  "split_on d [] = [[]]"
| "split_on d (c # cs) =
     (if c = d then [] # split_on d cs
      else (c # hd (split_on d cs)) # tl (split_on d cs))"

fun join :: "string \<Rightarrow> string list \<Rightarrow> string" where
  "join sep [] = []"
| "join sep [p] = p"
| "join sep (p # q # ps) = p @ sep @ join sep (q # ps)"

definition py_last :: "'a list \<Rightarrow> py_error + 'a" where
  "py_last xs = (if xs = [] then Inl IndexError else Inr (last xs))"

section \<open>Hotkey bindings\<close>

text \<open>
  A binding is the pair \<^verbatim>\<open>(frozenset of modifier names, key token)\<close>. Every binding the
  program builds (\<^verbatim>\<open>parse_hotkey\<close>, \<^verbatim>\<open>update_hotkey_binding\<close>) filters its modifier names
  through the keys of \<^verbatim>\<open>MODIFIER_MAP\<close>, so the four names are an enumeration here and
  \<open>modifier_of_string\<close> is the membership test \<^verbatim>\<open>name in MODIFIER_MAP\<close>.
\<close>

datatype modifier = CTRL | ALT | SHIFT | SUPER

type_synonym hotkey_binding = "modifier set \<times> string"

fun modifier_to_string :: "modifier \<Rightarrow> string" where
  "modifier_to_string CTRL = ''CTRL''"
| "modifier_to_string ALT = ''ALT''"
| "modifier_to_string SHIFT = ''SHIFT''"
| "modifier_to_string SUPER = ''SUPER''"

definition MODIFIER_MAP_keys :: "modifier list" where
  "MODIFIER_MAP_keys = [CTRL, ALT, SHIFT, SUPER]"

definition modifier_of_string :: "string \<Rightarrow> modifier option" where
  "modifier_of_string s = find (\<lambda>m. modifier_to_string m = s) MODIFIER_MAP_keys"

fun MODIFIER_ORDER :: "modifier \<Rightarrow> nat" where
  "MODIFIER_ORDER CTRL = 0"
| "MODIFIER_ORDER SHIFT = 1"
| "MODIFIER_ORDER ALT = 2"
| "MODIFIER_ORDER SUPER = 3"

text \<open>
  \<^verbatim>\<open>FKEYS\<close> maps \<^verbatim>\<open>"F1"\<close> .. \<^verbatim>\<open>"F24"\<close> to the key objects \<^verbatim>\<open>keyboard.Key.f1\<close> ..
  \<^verbatim>\<open>keyboard.Key.f24\<close> of the keyboard library (all 24 attributes are taken to exist).
  A key object is either a member of the \<^verbatim>\<open>keyboard.Key\<close> enumeration, named by its
  attribute, or a \<^verbatim>\<open>KeyCode\<close> with an optional character.
\<close>

datatype key = Key string | KeyCode "string option"

definition FKEYS :: "(string \<times> key) list" where
  "FKEYS = [(''F1'', Key ''f1''), (''F2'', Key ''f2''), (''F3'', Key ''f3''),
     (''F4'', Key ''f4''), (''F5'', Key ''f5''), (''F6'', Key ''f6''),
     (''F7'', Key ''f7''), (''F8'', Key ''f8''), (''F9'', Key ''f9''),
     (''F10'', Key ''f10''), (''F11'', Key ''f11''), (''F12'', Key ''f12''),
     (''F13'', Key ''f13''), (''F14'', Key ''f14''), (''F15'', Key ''f15''),
     (''F16'', Key ''f16''), (''F17'', Key ''f17''), (''F18'', Key ''f18''),
     (''F19'', Key ''f19''), (''F20'', Key ''f20''), (''F21'', Key ''f21''),
     (''F22'', Key ''f22''), (''F23'', Key ''f23''), (''F24'', Key ''f24'')]"

definition normalize_key_token :: "string \<Rightarrow> string option" where
  "normalize_key_token token0 =
     (let token = upper (strip token0) in
      if token = [] then None
      else if token \<in> set (map fst FKEYS) then Some token
      else if length token = 1 then Some token
      else None)"

definition fallback_binding :: hotkey_binding where
  "fallback_binding = ({}, ''F9'')"

definition hotkey_parts :: "string \<Rightarrow> string list" where
  "hotkey_parts binding =
     map strip (filter (\<lambda>part. strip part \<noteq> []) (split_on (CHR ''+'') binding))"

definition parse_hotkey :: "string \<Rightarrow> py_error + hotkey_binding" where
  "parse_hotkey binding0 =
     (let binding = strip binding0 in
      if binding = [] then Inr fallback_binding
      else
        let parts = hotkey_parts binding in
        if parts = [] then Inr fallback_binding
        else
          case py_last parts of
            Inl e \<Rightarrow> Inl e
          | Inr final \<Rightarrow>
              (case normalize_key_token final of
                 None \<Rightarrow> Inr fallback_binding
               | Some key_token \<Rightarrow>
                   Inr (set (List.map_filter (\<lambda>part. modifier_of_string (upper part))
                               (butlast parts)),
                        key_token)))"

definition key_to_config_string :: "hotkey_binding \<Rightarrow> string" where
  "key_to_config_string key_obj =
     (case key_obj of (modifiers, token) \<Rightarrow>
        join ''+'' (map modifier_to_string
                      (sort_key MODIFIER_ORDER (filter (\<lambda>m. m \<in> modifiers) MODIFIER_MAP_keys))
                    @ [upper token]))"


text \<open>
  The token \<^verbatim>\<open>parse_hotkey\<close> takes as the key: \<^verbatim>\<open>parts[-1]\<close>, the last part that is
  not empty after stripping (\<^verbatim>\<open>parts\<close> keeps no empty part), if there is one.
\<close>

definition last_nonempty_token :: "string \<Rightarrow> string option" where
  "last_nonempty_token binding =
     (let parts = hotkey_parts (strip binding) in
      if parts = [] then None else Some (last parts))"

section \<open>Hotkey listener\<close>

text \<open>
  \<^verbatim>\<open>MODIFIER_LOOKUP\<close> inverts \<^verbatim>\<open>MODIFIER_MAP\<close>: from a key object to the modifier name.
\<close>

definition MODIFIER_MAP :: "(modifier \<times> key list) list" where
  "MODIFIER_MAP =
     [(CTRL, [Key ''ctrl'', Key ''ctrl_l'', Key ''ctrl_r'']),
      (ALT, [Key ''alt'', Key ''alt_l'', Key ''alt_r'']),
      (SHIFT, [Key ''shift'', Key ''shift_l'', Key ''shift_r'']),
      (SUPER, [Key ''cmd'', Key ''cmd_l'', Key ''cmd_r'',
               Key ''super'', Key ''super_l'', Key ''super_r''])]"

definition MODIFIER_LOOKUP :: "(key \<times> modifier) list" where
  "MODIFIER_LOOKUP = concat (map (\<lambda>(name, keys). map (\<lambda>k. (k, name)) keys) MODIFIER_MAP)"

definition modifier_name :: "key \<Rightarrow> modifier option" where
  "modifier_name k = map_of MODIFIER_LOOKUP k"

definition event_to_token :: "key \<Rightarrow> string option" where
  "event_to_token k =
     (case find (\<lambda>(name, key_obj). k = key_obj) FKEYS of
        Some (name, key_obj) \<Rightarrow> Some name
      | None \<Rightarrow>
          (case k of
             KeyCode (Some ch) \<Rightarrow>
               if ch \<noteq> [] then
                 (let char = strip ch in
                  if length char = 1 then Some (upper char) else None)
               else None
           | _ \<Rightarrow> None))"

text \<open>
  The callbacks \<^verbatim>\<open>on_press\<close> and \<^verbatim>\<open>on_release\<close> close over the two sets
  \<^verbatim>\<open>active_modifiers\<close> and \<^verbatim>\<open>active_tokens\<close> and read the globals
  \<^verbatim>\<open>state["recording"]\<close>, \<^verbatim>\<open>state["hotkey_capture_active"]\<close> and \<^verbatim>\<open>HOTKEY_KEY\<close>
  at every call. The globals are an input of each event; the calls of
  \<^verbatim>\<open>stop_recording\<close> and \<^verbatim>\<open>toggle_recording\<close> are the output.
\<close>

record listener =
  active_modifiers :: "modifier set"
  active_tokens :: "string set"

record globals =
  g_recording :: bool
  g_hotkey_capture_active :: bool
  g_HOTKEY_KEY :: hotkey_binding

datatype action = StopRecording | ToggleRecording

definition is_esc :: "key \<Rightarrow> bool" where
  "is_esc k \<longleftrightarrow> k = Key ''esc''"

definition on_press :: "globals \<Rightarrow> key \<Rightarrow> listener \<Rightarrow> listener \<times> action list" where
  "on_press g k l =
     (if g_recording g \<and> is_esc k then (l, [StopRecording])
      else if g_hotkey_capture_active g then (l, [])
      else
        case modifier_name k of
          Some m \<Rightarrow> (l\<lparr>active_modifiers := insert m (active_modifiers l)\<rparr>, [])
        | None \<Rightarrow>
            (case event_to_token k of
               None \<Rightarrow> (l, [])
             | Some token \<Rightarrow>
                 (case g_HOTKEY_KEY g of (required_mods, required_token) \<Rightarrow>
                    if token \<noteq> required_token then (l, [])
                    else if token \<in> active_tokens l then (l, [])
                    else
                      (l\<lparr>active_tokens := insert token (active_tokens l)\<rparr>,
                       if required_mods \<subseteq> active_modifiers l then [ToggleRecording]
                       else []))))"

definition on_release :: "globals \<Rightarrow> key \<Rightarrow> listener \<Rightarrow> listener" where
  "on_release g k l =
     (if g_hotkey_capture_active g then l
      else
        let l1 = (case modifier_name k of
                    Some m \<Rightarrow> l\<lparr>active_modifiers := active_modifiers l - {m}\<rparr>
                  | None \<Rightarrow> l)
        in case event_to_token k of
             Some token \<Rightarrow> l1\<lparr>active_tokens := active_tokens l1 - {token}\<rparr>
           | None \<Rightarrow> l1)"

datatype key_event = Press key | Release key

fun listener_step :: "listener \<Rightarrow> globals \<times> key_event \<Rightarrow> listener \<times> action list" where
  "listener_step l (g, Press k) = on_press g k l"
| "listener_step l (g, Release k) = (on_release g k l, [])"

fun listener_run :: "listener \<Rightarrow> (globals \<times> key_event) list \<Rightarrow> listener" where
  "listener_run l [] = l"
| "listener_run l (e # es) = listener_run (fst (listener_step l e)) es"

definition listener_init :: listener where
  "listener_init = \<lparr>active_modifiers = {}, active_tokens = {}\<rparr>"

definition fires :: "listener \<Rightarrow> globals \<times> key_event \<Rightarrow> bool" where
  "fires l e \<longleftrightarrow> ToggleRecording \<in> set (snd (listener_step l e))"

definition releases_token :: "string \<Rightarrow> globals \<times> key_event \<Rightarrow> bool" where
  "releases_token t e \<longleftrightarrow> (\<exists>k. snd e = Release k \<and> event_to_token k = Some t)"

definition presses_token :: "string \<Rightarrow> globals \<times> key_event \<Rightarrow> bool" where
  "presses_token t e \<longleftrightarrow> (\<exists>k. snd e = Press k \<and> event_to_token k = Some t)"

definition presses_modifier :: "modifier \<Rightarrow> globals \<times> key_event \<Rightarrow> bool" where
  "presses_modifier m e \<longleftrightarrow> (\<exists>k. snd e = Press k \<and> modifier_name k = Some m)"

text \<open>A release is ignored by \<^verbatim>\<open>on_release\<close> while a hotkey capture is active.\<close>

definition releases_modifier :: "modifier \<Rightarrow> globals \<times> key_event \<Rightarrow> bool" where
  "releases_modifier m e \<longleftrightarrow>
     (\<exists>k. snd e = Release k \<and> modifier_name k = Some m \<and> \<not> g_hotkey_capture_active (fst e))"

definition example_globals :: globals where
  "example_globals =
     \<lparr>g_recording = False, g_hotkey_capture_active = False, g_HOTKEY_KEY = ({CTRL}, ''F9'')\<rparr>"

section \<open>Recording session\<close>

text \<open>
  The globals \<^verbatim>\<open>state["recording"]\<close>, \<^verbatim>\<open>state["device_idx"]\<close>, \<^verbatim>\<open>state["stream"]\<close> and
  \<^verbatim>\<open>AUDIO_QUEUE\<close> are fields of one record, together with what the session reports:
  the messages passed to \<^verbatim>\<open>notify\<close> (shown only when notifications are enabled), the
  lines printed to \<^verbatim>\<open>sys.stderr\<close> and the buffers handed to the transcription thread.
  A stream handle is a number; a queue is the list of its chunks, oldest first.
\<close>

record rec_state =
  recording :: bool
  device_idx :: "int option"
  stream :: "nat option"
  AUDIO_QUEUE :: "real list list option"
  notifications :: "string list"
  stderr :: "string list"
  submitted :: "real list list"

text \<open>
  What the collaborators do during one call: the device lookup
  \<^verbatim>\<open>find_device_index_by_name(cfg.get("device_name"))\<close>, the constructor
  \<^verbatim>\<open>sd.InputStream(..., device=idx)\<close>, \<^verbatim>\<open>stream.start()\<close>, and the two tray refreshes.
  Each returns or raises.
\<close>

record rec_env =
  find_device_index_by_name :: "py_error + int option"
  InputStream :: "int option \<Rightarrow> py_error + nat"
  stream_start :: "nat \<Rightarrow> py_error + unit"
  refresh_tray_indicator :: "py_error + unit"
  refresh_menu :: "py_error + unit"
  notifications_enabled :: bool

fun exc_text :: "py_error \<Rightarrow> string" where
  "exc_text IndexError = ''index out of range''"
| "exc_text (StreamError msg) = msg"
| "exc_text (DeviceError msg) = msg"

definition initial_state :: rec_state where
  "initial_state =
     \<lparr>recording = False, device_idx = None, stream = None, AUDIO_QUEUE = None,
      notifications = [], stderr = [], submitted = []\<rparr>"

text \<open>\<^verbatim>\<open>notify\<close> returns at once when notifications are disabled and swallows every exception.\<close>

definition notify :: "rec_env \<Rightarrow> string \<Rightarrow> rec_state \<Rightarrow> rec_state" where
  "notify env message s =
     (if \<not> notifications_enabled env then s
      else s\<lparr>notifications := notifications s @ [message]\<rparr>)"

definition print_stderr :: "string \<Rightarrow> rec_state \<Rightarrow> rec_state" where
  "print_stderr line s = s\<lparr>stderr := stderr s @ [line]\<rparr>"

definition recording_callback :: "real list \<Rightarrow> rec_state \<Rightarrow> rec_state" where
  "recording_callback indata s =
     (if \<not> recording s then s
      else case AUDIO_QUEUE s of
             None \<Rightarrow> s
           | Some q \<Rightarrow> s\<lparr>AUDIO_QUEUE := Some (q @ [indata])\<rparr>)"

text \<open>
  The body of the \<^verbatim>\<open>try\<close> block of \<^verbatim>\<open>start_recording\<close>: \<open>Inl\<close> carries the exception and
  the state at the moment it was raised, \<open>Inr\<close> the state at the end of the block.
\<close>

definition start_recording_try :: "rec_env \<Rightarrow> rec_state \<Rightarrow> py_error \<times> rec_state + rec_state" where
  "start_recording_try env s0 =
     (let s1 = s0\<lparr>AUDIO_QUEUE := Some []\<rparr> in
      case InputStream env (device_idx s1) of
        Inl exc \<Rightarrow> Inl (exc, s1)
      | Inr handle \<Rightarrow>
          (case stream_start env handle of
             Inl exc \<Rightarrow> Inl (exc, s1)
           | Inr _ \<Rightarrow>
               (let s2 = s1\<lparr>stream := Some handle\<rparr>;
                    s3 = s2\<lparr>recording := True\<rparr>;
                    s4 = notify env ''Recording started.'' s3
                in case refresh_tray_indicator env of
                     Inl exc \<Rightarrow> Inl (exc, s4)
                   | Inr _ \<Rightarrow>
                       (case refresh_menu env of
                          Inl exc \<Rightarrow> Inl (exc, s4)
                        | Inr _ \<Rightarrow> Inr s4))))"

text \<open>
  \<^verbatim>\<open>start_recording\<close> returns the exception that leaves it, if any, and the new state.
  \<^verbatim>\<open>update_device_index()\<close> is called before the \<^verbatim>\<open>try\<close> block.
\<close>

definition start_recording :: "rec_env \<Rightarrow> rec_state \<Rightarrow> py_error option \<times> rec_state" where
  "start_recording env s =
     (if recording s then (None, s)
      else
        case find_device_index_by_name env of
          Inl exc \<Rightarrow> (Some exc, s)
        | Inr idx \<Rightarrow>
            (case start_recording_try env (s\<lparr>device_idx := idx\<rparr>) of
               Inr s' \<Rightarrow> (None, s')
             | Inl (exc, s') \<Rightarrow>
                 (None,
                  print_stderr (''[ERROR] start_recording failed: '' @ exc_text exc)
                    (notify env (''Unable to start recording: '' @ exc_text exc)
                       (s'\<lparr>AUDIO_QUEUE := None\<rparr>)))))"

text \<open>
  \<^verbatim>\<open>stop_recording\<close>: the state is flipped first, the tray is refreshed (outside any
  \<^verbatim>\<open>try\<close>), the stream is stopped and closed with exceptions suppressed, and the drained
  queue is handed to the transcription thread unless it is empty.
\<close>

definition stop_recording :: "rec_env \<Rightarrow> rec_state \<Rightarrow> py_error option \<times> rec_state" where
  "stop_recording env s =
     (if \<not> recording s then (None, s)
      else
        let queue_obj = AUDIO_QUEUE s;
            s1 = s\<lparr>AUDIO_QUEUE := None\<rparr>;
            s2 = s1\<lparr>recording := False\<rparr>;
            s3 = s2\<lparr>stream := None\<rparr>
        in case refresh_tray_indicator env of
             Inl exc \<Rightarrow> (Some exc, s3)
           | Inr _ \<Rightarrow>
               (case refresh_menu env of
                  Inl exc \<Rightarrow> (Some exc, s3)
                | Inr _ \<Rightarrow>
                    (let frames = (case queue_obj of None \<Rightarrow> [] | Some q \<Rightarrow> q) in
                     if frames = [] then (None, notify env ''No audio captured.'' s3)
                     else (None, s3\<lparr>submitted := submitted s3 @ [concat frames]\<rparr>))))"

text \<open>The states the session can be in: from the initial one by calls of the three operations.\<close>

inductive reachable :: "rec_state \<Rightarrow> bool" where
  reachable_init: "reachable initial_state"
| reachable_start: "reachable s \<Longrightarrow> reachable (snd (start_recording env s))"
| reachable_stop: "reachable s \<Longrightarrow> reachable (snd (stop_recording env s))"
| reachable_callback: "reachable s \<Longrightarrow> reachable (recording_callback indata s)"

definition failing_env :: rec_env where
  "failing_env =
     \<lparr>find_device_index_by_name = Inr None,
      InputStream = (\<lambda>idx. Inl (StreamError ''Error opening InputStream'')),
      stream_start = (\<lambda>h. Inr ()),
      refresh_tray_indicator = Inr (),
      refresh_menu = Inr (),
      notifications_enabled = True\<rparr>"

section \<open>Voice-activity segmentation\<close>

subsection \<open>Dropping short runs\<close>

text \<open>
  \<^verbatim>\<open>np.flatnonzero(mask)\<close> lists the positions that hold \<open>True\<close>, ascending;
  \<^verbatim>\<open>cleaned[start:stop] = False\<close> clears a slice (a slice reaching past the end is cut).
\<close>

definition flatnonzero :: "bool list \<Rightarrow> nat list" where
  "flatnonzero msk = filter (\<lambda>i. msk ! i) [0..<length msk]"

definition clear_slice :: "bool list \<Rightarrow> nat \<Rightarrow> nat \<Rightarrow> bool list" where
  "clear_slice cleaned start stop =
     map (\<lambda>i. if start \<le> i \<and> i < stop then False else cleaned ! i) [0..<length cleaned]"

text \<open>The \<^verbatim>\<open>for val in indices[1:]\<close> loop, on the variables \<^verbatim>\<open>cleaned, start, prev, count\<close>.\<close>

fun drop_short_runs_loop ::
  "int \<Rightarrow> bool list \<Rightarrow> nat \<Rightarrow> nat \<Rightarrow> int \<Rightarrow> nat list \<Rightarrow> bool list \<times> nat \<times> nat \<times> int" where
  "drop_short_runs_loop min_len cleaned start prev count [] = (cleaned, start, prev, count)"
| "drop_short_runs_loop min_len cleaned start prev count (val # rest) =
     (if val = prev + 1 then drop_short_runs_loop min_len cleaned start val (count + 1) rest
      else
        drop_short_runs_loop min_len
          (if count < min_len then clear_slice cleaned start (prev + 1) else cleaned)
          val val 1 rest)"

definition drop_short_runs :: "bool list \<Rightarrow> int \<Rightarrow> bool list" where
  "drop_short_runs msk min_len =
     (if min_len \<le> 1 then msk
      else
        let cleaned = msk; indices = flatnonzero cleaned in
        case indices of
          [] \<Rightarrow> cleaned
        | first # rest \<Rightarrow>
            (case drop_short_runs_loop min_len cleaned first first 1 rest of
               (cleaned', start, prev, count) \<Rightarrow>
                 if count < min_len then clear_slice cleaned' start (prev + 1) else cleaned'))"

text \<open>
  A run of a mask: positions \<open>i\<close> to \<open>j\<close> (inclusive) all hold \<open>True\<close>, and the run cannot
  be extended on either side.
\<close>

definition is_run :: "bool list \<Rightarrow> nat \<Rightarrow> nat \<Rightarrow> bool" where
  "is_run msk i j \<longleftrightarrow>
     i \<le> j \<and> j < length msk \<and> (\<forall>t \<in> {i..j}. msk ! t)
     \<and> (i = 0 \<or> \<not> msk ! (i - 1)) \<and> (j + 1 = length msk \<or> \<not> msk ! (j + 1))"

text \<open>Every run of the mask that ends before position \<open>b\<close> has at least \<open>k\<close> elements.\<close>

definition runs_before_ok :: "int \<Rightarrow> bool list \<Rightarrow> nat \<Rightarrow> bool" where
  "runs_before_ok k msk b \<longleftrightarrow> (\<forall>i j. is_run msk i j \<and> j < b \<longrightarrow> k \<le> int (j - i + 1))"

text \<open>
  The loop invariant of \<^verbatim>\<open>_drop_short_runs\<close>: \<open>start\<close> to \<open>prev\<close> is the run being counted,
  \<open>count\<close> is its length so far, it cannot be extended to the left, and every run that
  ended before it has been dealt with.
\<close>

definition run_state_ok :: "int \<Rightarrow> bool list \<Rightarrow> nat \<Rightarrow> nat \<Rightarrow> int \<Rightarrow> bool" where
  "run_state_ok k c start prev count \<longleftrightarrow>
     start \<le> prev \<and> prev < length c \<and> (\<forall>t. start \<le> t \<and> t \<le> prev \<longrightarrow> c ! t)
     \<and> (start = 0 \<or> \<not> c ! (start - 1)) \<and> count = int (prev - start + 1)
     \<and> runs_before_ok k c start"

subsection \<open>numpy helpers\<close>

text \<open>
  \<^verbatim>\<open>np.clip(x, -1.0, 1.0)\<close>, \<^verbatim>\<open>(x * 32767).astype(np.int16)\<close> (the cast truncates towards
  zero; after the clip the product lies within the 16-bit range, so nothing wraps) and
  the division by \<^verbatim>\<open>32767.0\<close> that turns the integers back into floats.
\<close>

definition clip :: "real \<Rightarrow> real" where
  "clip x = max (-1) (min x 1)"

definition astype_int16 :: "real \<Rightarrow> int" where
  "astype_int16 x = (if 0 \<le> x then \<lfloor>x\<rfloor> else \<lceil>x\<rceil>)"

definition to_pcm16 :: "real \<Rightarrow> int" where
  "to_pcm16 x = astype_int16 (clip x * 32767)"

definition to_float :: "int \<Rightarrow> real" where
  "to_float i = real_of_int i / 32767"

text \<open>The root mean square of a block of 16-bit samples, scaled to floats.\<close>

definition rms_of :: "int list \<Rightarrow> real" where
  "rms_of block = sqrt (sum_list (map (\<lambda>s. (to_float s)\<^sup>2) block) / real (length block))"

text \<open>
  \<^verbatim>\<open>np.percentile(a, q)\<close> with the default linear interpolation, for a non-empty array:
  the value at the virtual index \<open>q / 100 * (n - 1)\<close> of the sorted array.
\<close>

definition np_percentile :: "real list \<Rightarrow> real \<Rightarrow> real" where
  "np_percentile a q =
     (let s = sort a;
          n = length s;
          virtual_index = q / 100 * real (n - 1);
          lo = nat \<lfloor>virtual_index\<rfloor>;
          hi = min (lo + 1) (n - 1);
          frac = virtual_index - real lo
      in s ! lo + frac * (s ! hi - s ! lo))"

text \<open>
  \<^verbatim>\<open>np.convolve(a, v, mode="same")\<close> on non-empty arrays: the two arguments are swapped
  when \<open>v\<close> is the longer one, and the result is the centred part of the full convolution
  that has the length of the longer argument.
\<close>

definition convolve_full :: "int list \<Rightarrow> int list \<Rightarrow> int list" where
  "convolve_full a v =
     map (\<lambda>m. sum_list (map (\<lambda>j. if j \<le> m \<and> m - j < length v then a ! j * v ! (m - j) else 0)
                            [0..<length a]))
         [0..<length a + length v - 1]"

definition np_convolve_same :: "int list \<Rightarrow> int list \<Rightarrow> int list" where
  "np_convolve_same a0 v0 =
     (let a = (if length v0 > length a0 then v0 else a0);
          v = (if length v0 > length a0 then a0 else v0);
          n = length v;
          n_left = n div 2
      in take (length a) (drop (n - 1 - n_left) (convolve_full a v)))"

text \<open>
  \<^verbatim>\<open>int(round(ms / frame_ms))\<close> for a non-negative integer \<open>ms\<close>: Python rounds a tie to the
  even neighbour.
\<close>

definition py_round_div :: "int \<Rightarrow> int \<Rightarrow> int" where
  "py_round_div ms d =
     (let q = ms div d; r = ms mod d in
      if 2 * r < d then q
      else if 2 * r > d then q + 1
      else if even q then q else q + 1)"

definition max_list :: "real list \<Rightarrow> real" where
  "max_list xs = foldr max (tl xs) (hd xs)"

subsection \<open>\<^verbatim>\<open>apply_vad\<close>\<close>

text \<open>
  The configuration keys \<^verbatim>\<open>apply_vad\<close> reads, after \<^verbatim>\<open>cfg.get\<close> has filled in its default
  and \<^verbatim>\<open>int\<close> or \<^verbatim>\<open>float\<close> has converted the value.
\<close>

record vad_cfg =
  use_vad :: bool
  vad_mode :: int
  vad_energy_floor :: real
  vad_energy_ratio :: real
  vad_min_energy_frames :: int
  vad_bridge_ms :: int
  vad_padding_ms :: int
  vad_min_output_ratio :: real

text \<open>
  The voice-activity library: whether it could be imported, and the classifier
  \<^verbatim>\<open>webrtcvad.Vad(mode).is_speech(frame.tobytes(), SAMPLE_RATE)\<close>, which answers or raises
  (\<open>None\<close>). The mode is clamped to 0 .. 3 before the classifier is built, so the
  constructor gets a mode it accepts.
\<close>

record vad_env =
  VAD_AVAILABLE :: bool
  is_speech :: "int \<Rightarrow> int list \<Rightarrow> bool option"

definition SAMPLE_RATE :: nat where
  "SAMPLE_RATE = 16000"

definition frame_ms :: nat where
  "frame_ms = 30"

definition frame_length :: nat where
  "frame_length = SAMPLE_RATE * frame_ms div 1000"

text \<open>\<^verbatim>\<open>trimmed_pcm.reshape(total_frames, frame_length)\<close>: the rows of the reshaped array.\<close>

definition reshape_frames :: "'a list \<Rightarrow> nat \<Rightarrow> nat \<Rightarrow> 'a list list" where
  "reshape_frames trimmed_pcm total_frames flen =
     map (\<lambda>i. take flen (drop (i * flen) trimmed_pcm)) [0..<total_frames]"

text \<open>The classification loop: it returns from \<^verbatim>\<open>apply_vad\<close> at the first frame that raises.\<close>

fun classify_frames :: "(int list \<Rightarrow> bool option) \<Rightarrow> int list list \<Rightarrow> bool list option" where
  "classify_frames f [] = Some []"
| "classify_frames f (frame # rest) =
     (case f frame of
        None \<Rightarrow> None
      | Some b \<Rightarrow>
          (case classify_frames f rest of
             None \<Rightarrow> None
           | Some bs \<Rightarrow> Some (b # bs)))"

text \<open>The loop that groups the voiced indices into segments \<^verbatim>\<open>(segment_start, prev_idx)\<close>.\<close>

fun build_segments :: "nat \<Rightarrow> nat \<Rightarrow> nat list \<Rightarrow> (nat \<times> nat) list" where
  "build_segments segment_start prev_idx [] = [(segment_start, prev_idx)]"
| "build_segments segment_start prev_idx (idx # rest) =
     (if int idx - int prev_idx > 1
      then (segment_start, prev_idx) # build_segments idx idx rest
      else build_segments segment_start idx rest)"

text \<open>
  The bounds of a padded segment, \<^verbatim>\<open>max(0, seg_start - padding_frames)\<close> (the subtraction
  on \<open>nat\<close> stops at 0) and \<^verbatim>\<open>min(total_frames, seg_end + padding_frames + 1)\<close>, the rows
  \<^verbatim>\<open>frames[start_idx:end_idx]\<close> and their samples.
\<close>

definition seg_start_idx :: "nat \<Rightarrow> nat \<times> nat \<Rightarrow> nat" where
  "seg_start_idx padding_frames seg = fst seg - padding_frames"

definition seg_end_idx :: "nat \<Rightarrow> nat \<Rightarrow> nat \<times> nat \<Rightarrow> nat" where
  "seg_end_idx total_frames padding_frames seg = min total_frames (snd seg + padding_frames + 1)"

definition segment_samples :: "'a list list \<Rightarrow> nat \<Rightarrow> nat \<Rightarrow> nat \<times> nat \<Rightarrow> 'a list" where
  "segment_samples frames total_frames padding_frames seg =
     (let start_idx = seg_start_idx padding_frames seg;
          end_idx = seg_end_idx total_frames padding_frames seg
      in concat (take (end_idx - start_idx) (drop start_idx frames)))"

text \<open>
  The extraction loop over the segments, on the variables \<^verbatim>\<open>segment_buffers\<close> (the result)
  and \<^verbatim>\<open>tail_appended\<close>. The source runs it on 16-bit samples; the sample type is left
  open, so that the same selection can be read on the samples of the input.
\<close>

fun extract_segments ::
  "'a list list \<Rightarrow> 'a list \<Rightarrow> real \<Rightarrow> real \<Rightarrow> nat \<Rightarrow> nat \<Rightarrow> bool \<Rightarrow> (nat \<times> nat) list
     \<Rightarrow> 'a list list" where
  "extract_segments frames remainder_flat remainder_rms energy_floor total_frames padding_frames
     tail_appended [] = []"
| "extract_segments frames remainder_flat remainder_rms energy_floor total_frames padding_frames
     tail_appended (seg # rest) =
     (let end_idx = seg_end_idx total_frames padding_frames seg;
          segment_int = segment_samples frames total_frames padding_frames seg
      in
        if segment_int = [] then
          extract_segments frames remainder_flat remainder_rms energy_floor total_frames
            padding_frames tail_appended rest
        else if \<not> tail_appended \<and> remainder_flat \<noteq> [] \<and> end_idx \<ge> total_frames
                \<and> remainder_rms \<ge> energy_floor then
          (segment_int @ remainder_flat)
            # extract_segments frames remainder_flat remainder_rms energy_floor total_frames
                padding_frames True rest
        else
          segment_int
            # extract_segments frames remainder_flat remainder_rms energy_floor total_frames
                padding_frames tail_appended rest)"

text \<open>The energy thresholds and masks computed from the per-frame RMS values.\<close>

definition energy_ratio_of :: "vad_cfg \<Rightarrow> real" where
  "energy_ratio_of cfg = max 0.005 (min (vad_energy_ratio cfg) 0.3)"

definition max_rms_of :: "real list \<Rightarrow> real" where
  "max_rms_of rms = (if rms \<noteq> [] then max_list rms else 0)"

definition energy_threshold_of :: "vad_cfg \<Rightarrow> real list \<Rightarrow> real" where
  "energy_threshold_of cfg rms =
     (let energy_floor = vad_energy_floor cfg;
          energy_threshold = max energy_floor (max_rms_of rms * energy_ratio_of cfg);
          nonzero_rms = filter (\<lambda>r. r > energy_floor) rms
      in if nonzero_rms \<noteq> []
         then min energy_threshold (max energy_floor (np_percentile nonzero_rms 75))
         else energy_threshold)"

definition energy_mask_of :: "vad_cfg \<Rightarrow> real list \<Rightarrow> bool list \<Rightarrow> bool list" where
  "energy_mask_of cfg rms speech_mask =
     (if rms \<noteq> [] then map (\<lambda>r. r \<ge> energy_threshold_of cfg rms) rms
      else replicate (length speech_mask) False)"

definition soft_threshold_of :: "vad_cfg \<Rightarrow> real list \<Rightarrow> real" where
  "soft_threshold_of cfg rms =
     (let soft_ratio = max 0.002 (energy_ratio_of cfg * 0.5)
      in max (vad_energy_floor cfg * 1.5) (max_rms_of rms * soft_ratio))"

definition min_energy_frames_of :: "vad_cfg \<Rightarrow> int" where
  "min_energy_frames_of cfg = max 1 (vad_min_energy_frames cfg)"

definition soft_mask_of :: "vad_cfg \<Rightarrow> real list \<Rightarrow> bool list \<Rightarrow> bool list" where
  "soft_mask_of cfg rms speech_mask =
     (let soft_mask =
            (if rms \<noteq> [] then map (\<lambda>r. r \<ge> soft_threshold_of cfg rms) rms
             else replicate (length speech_mask) False)
      in if (\<exists>b \<in> set soft_mask. b) then drop_short_runs soft_mask (min_energy_frames_of cfg)
         else soft_mask)"

definition mask_or :: "bool list \<Rightarrow> bool list \<Rightarrow> bool list" where
  "mask_or xs ys = map (\<lambda>(x, y). x \<or> y) (zip xs ys)"

text \<open>Bridging by convolution with a flat kernel, then the second pass of the short-run eraser.\<close>

definition bridge_frames_of :: "vad_cfg \<Rightarrow> int" where
  "bridge_frames_of cfg =
     (let bridge_ms = max 0 (vad_bridge_ms cfg)
      in if bridge_ms \<noteq> 0 then py_round_div bridge_ms (int frame_ms) else 0)"

definition bridge_mask :: "vad_cfg \<Rightarrow> bool list \<Rightarrow> bool list" where
  "bridge_mask cfg combined_mask =
     (let bridge_frames = bridge_frames_of cfg;
          bridged =
            (if bridge_frames > 0
             then map (\<lambda>c. c > 0)
                    (np_convolve_same (map (\<lambda>b. if b then 1 else 0) combined_mask)
                       (replicate (nat (bridge_frames * 2 + 1)) 1))
             else combined_mask)
      in if min_energy_frames_of cfg > 1 then drop_short_runs bridged (min_energy_frames_of cfg)
         else bridged)"

definition padding_frames_of :: "vad_cfg \<Rightarrow> nat" where
  "padding_frames_of cfg =
     (let padding_ms = max 0 (vad_padding_ms cfg)
      in nat (max 1 (py_round_div padding_ms (int frame_ms))))"

definition remainder_rms_of :: "int list \<Rightarrow> real" where
  "remainder_rms_of remainder_flat = (if remainder_flat \<noteq> [] then rms_of remainder_flat else 0)"

text \<open>
  The list \<^verbatim>\<open>segment_buffers\<close> for a final mask: \<^verbatim>\<open>voiced_indices[0]\<close> raises
  \<^verbatim>\<open>IndexError\<close> when the mask holds no \<open>True\<close>.
\<close>

definition segment_buffers_of ::
  "vad_cfg \<Rightarrow> int list list \<Rightarrow> int list \<Rightarrow> bool list \<Rightarrow> py_error + int list list" where
  "segment_buffers_of cfg frames remainder combined_mask =
     (case flatnonzero combined_mask of
        [] \<Rightarrow> Inl IndexError
      | first # rest \<Rightarrow>
          Inr (extract_segments frames remainder (remainder_rms_of remainder)
                 (vad_energy_floor cfg) (length frames) (padding_frames_of cfg) False
                 (build_segments first first rest)))"

text \<open>
  What \<^verbatim>\<open>apply_vad\<close> returns: the array \<^verbatim>\<open>mono\<close> it was given (every \<^verbatim>\<open>return mono\<close>) or
  the array \<^verbatim>\<open>processed_pcm\<close> it has built.
\<close>

datatype vad_outcome = ReturnMono | ReturnProcessed "real list"

definition combined_mask_of :: "vad_cfg \<Rightarrow> int list list \<Rightarrow> bool list \<Rightarrow> bool list" where
  "combined_mask_of cfg frames speech_mask =
     (let rms = map rms_of frames
      in mask_or (mask_or speech_mask (energy_mask_of cfg rms speech_mask))
           (soft_mask_of cfg rms speech_mask))"

definition segment_after_classification ::
  "vad_cfg \<Rightarrow> real list \<Rightarrow> int list list \<Rightarrow> int list \<Rightarrow> bool list \<Rightarrow> py_error + vad_outcome" where
  "segment_after_classification cfg mono_buf frames remainder speech_mask =
     (let combined_mask = combined_mask_of cfg frames speech_mask in
      if \<not> (\<exists>b \<in> set combined_mask. b) then Inr ReturnMono
      else
        case segment_buffers_of cfg frames remainder (bridge_mask cfg combined_mask) of
          Inl exc \<Rightarrow> Inl exc
        | Inr segment_buffers \<Rightarrow>
            if segment_buffers = [] then Inr ReturnMono
            else
              let processed_int = concat segment_buffers;
                  processed_pcm = map to_float processed_int;
                  retained_ratio =
                    (if length mono_buf \<noteq> 0
                     then real (length processed_pcm) / real (length mono_buf) else 1)
              in if retained_ratio < vad_min_output_ratio cfg then Inr ReturnMono
                 else Inr (ReturnProcessed processed_pcm))"

definition vad_frames :: "real list \<Rightarrow> int list list" where
  "vad_frames mono_buf =
     (let pcm16 = map to_pcm16 mono_buf;
          total_frames = length pcm16 div frame_length;
          usable_samples = total_frames * frame_length
      in reshape_frames (take usable_samples pcm16) total_frames frame_length)"

definition vad_remainder :: "real list \<Rightarrow> int list" where
  "vad_remainder mono_buf =
     (let pcm16 = map to_pcm16 mono_buf;
          total_frames = length pcm16 div frame_length;
          usable_samples = total_frames * frame_length
      in drop usable_samples pcm16)"

definition vad_mode_of :: "vad_cfg \<Rightarrow> int" where
  "vad_mode_of cfg = max 0 (min 3 (vad_mode cfg))"

definition apply_vad_outcome :: "vad_env \<Rightarrow> vad_cfg \<Rightarrow> real list \<Rightarrow> py_error + vad_outcome" where
  "apply_vad_outcome env cfg mono_buf =
     (if \<not> use_vad cfg \<or> \<not> VAD_AVAILABLE env then Inr ReturnMono
      else if frame_length \<le> 0 then Inr ReturnMono
      else if length (map to_pcm16 mono_buf) div frame_length = 0 then Inr ReturnMono
      else
        case classify_frames (is_speech env (vad_mode_of cfg)) (vad_frames mono_buf) of
          None \<Rightarrow> Inr ReturnMono
        | Some speech_mask \<Rightarrow>
            segment_after_classification cfg mono_buf (vad_frames mono_buf)
              (vad_remainder mono_buf) speech_mask)"










text \<open>The 16-bit rows of an input of 15 frames: a loud first and last frame, silence between.\<close>

definition click_frames :: "int list list" where
  "click_frames = map (\<lambda>c. replicate 480 c) [32767,0,0,0,0,0,0,0,0,0,0,0,0,0,32767]"

section \<open>Properties of the hotkey binding functions\<close>


lemma dropWhile_rev_front:
  "xs = [] \<or> \<not> P (hd xs) \<Longrightarrow> dropWhile P (rev (dropWhile P (rev xs))) = rev (dropWhile P (rev xs))"
  by (metis (no_types, lifting) ext dropWhile_eq_Nil_conv
    dropWhile_eq_self_iff dropWhile_last last_rev rev.simps(1)
    rev_rev_ident)

lemma strip_idem: "strip (strip s) = strip s"
proof -
  let ?t = "dropWhile is_space s"
  have "?t = [] \<or> \<not> is_space (hd ?t)"
    by (metis hd_dropWhile)
  then have "dropWhile is_space (rev (dropWhile is_space (rev ?t))) = rev (dropWhile is_space (rev ?t))"
    by (rule dropWhile_rev_front)
  then show ?thesis
    by (simp add: strip_def)
qed

lemma upper_Nil_iff: "upper s = [] \<longleftrightarrow> s = []"
  by (simp add: upper_def)

lemma length_upper: "length (upper s) = length s"
  by (simp add: upper_def)

lemma hotkey_parts_stripped: "p \<in> set (hotkey_parts b) \<Longrightarrow> strip p = p \<and> p \<noteq> []"
  by (auto simp: hotkey_parts_def strip_idem)

lemma parse_hotkey_total: "\<exists>b. parse_hotkey s = Inr b"
  by (simp add: parse_hotkey_def Let_def py_last_def split: option.splits)

lemma normalize_reject:
  assumes "strip t = t" "upper t \<notin> set (map fst FKEYS)" "length t \<noteq> 1"
  shows "normalize_key_token t = None"
  using assms by (simp add: normalize_key_token_def Let_def length_upper)

text \<open>
  Claim C9, as amended. \<^verbatim>\<open>parse_hotkey\<close> returns the fallback binding (no modifiers, key
  \<^verbatim>\<open>F9\<close>) on the empty string, on a blank string and on \<^verbatim>\<open>"CTRL+"\<close>; it never raises (the
  only indexing, \<^verbatim>\<open>parts[-1]\<close>, is reached with a non-empty list); and every input that has
  no non-empty part, or whose last non-empty part (after splitting on \<^verbatim>\<open>+\<close> and stripping)
  is, once uppercased, neither one of \<^verbatim>\<open>F1\<close> .. \<^verbatim>\<open>F24\<close> nor a single character, is parsed
  to the fallback binding.
\<close>

theorem parse_hotkey_fallback:
  "parse_hotkey '''' = Inr fallback_binding
   \<and> parse_hotkey ''   '' = Inr fallback_binding
   \<and> parse_hotkey ''CTRL+'' = Inr fallback_binding
   \<and> (\<exists>b. parse_hotkey s = Inr b)
   \<and> ((\<forall>t. last_nonempty_token s = Some t \<longrightarrow> upper t \<notin> set (map fst FKEYS) \<and> length t \<noteq> 1)
        \<longrightarrow> parse_hotkey s = Inr fallback_binding)"
proof -
  have e1: "parse_hotkey '''' = Inr fallback_binding"
    by (simp add: parse_hotkey_def strip_def)
  have e2: "parse_hotkey ''   '' = Inr fallback_binding"
    by (simp add: parse_hotkey_def strip_def is_space_def)
  have e3: "parse_hotkey ''CTRL+'' = Inr fallback_binding"
    by (simp add: parse_hotkey_def strip_def is_space_def upper_def upper_char_def
        hotkey_parts_def py_last_def normalize_key_token_def FKEYS_def)
  have gen: "parse_hotkey s = Inr fallback_binding"
    if h: "\<forall>t. last_nonempty_token s = Some t \<longrightarrow> upper t \<notin> set (map fst FKEYS) \<and> length t \<noteq> 1"
  proof (cases "hotkey_parts (strip s) = []")
    case True
    then show ?thesis by (simp add: parse_hotkey_def Let_def)
  next
    case False
    let ?t = "last (hotkey_parts (strip s))"
    from False have ft: "last_nonempty_token s = Some ?t"
      by (simp add: last_nonempty_token_def)
    from False have "?t \<in> set (hotkey_parts (strip s))" by simp
    then have st: "strip ?t = ?t" by (simp add: hotkey_parts_stripped)
    from h ft have "upper ?t \<notin> set (map fst FKEYS) \<and> length ?t \<noteq> 1" by blast
    with st have "normalize_key_token ?t = None" by (simp add: normalize_reject)
    with False show ?thesis
      by (simp add: parse_hotkey_def Let_def py_last_def)
  qed
  from e1 e2 e3 gen parse_hotkey_total show ?thesis by blast
qed

theorem parse_hotkey_fallback_witness:
  "last_nonempty_token ''CTRL+SHIFT'' = Some ''SHIFT'' \<and> parse_hotkey ''CTRL+SHIFT'' = Inr fallback_binding"
proof -
  have ft: "last_nonempty_token ''CTRL+SHIFT'' = Some ''SHIFT''"
    by (simp add: last_nonempty_token_def hotkey_parts_def strip_def is_space_def)
  have "\<forall>t. last_nonempty_token ''CTRL+SHIFT'' = Some t \<longrightarrow> upper t \<notin> set (map fst FKEYS) \<and> length t \<noteq> 1"
    by (simp add: ft upper_def upper_char_def FKEYS_def)
  with parse_hotkey_fallback [of "''CTRL+SHIFT''"] ft show ?thesis by blast
qed


text \<open>
  Claim C9 as stated, with the final token the last of the \<^verbatim>\<open>+\<close>-separated tokens, fails:
  the last token of \<^verbatim>\<open>"A+"\<close> is empty, so neither a function key nor a single character,
  but \<^verbatim>\<open>parse_hotkey\<close> drops empty parts before it takes the last one and returns the
  binding of the key \<^verbatim>\<open>A\<close>, not the fallback.
\<close>

theorem parse_hotkey_trailing_plus_counterexample:
  "last (map strip (split_on (CHR ''+'') (strip ''A+''))) = []
   \<and> upper [] \<notin> set (map fst FKEYS) \<and> length ([] :: string) \<noteq> 1
   \<and> parse_hotkey ''A+'' = Inr ({}, ''A'')
   \<and> parse_hotkey ''A+'' \<noteq> Inr fallback_binding"
  by (simp add: parse_hotkey_def strip_def is_space_def upper_def upper_char_def
      hotkey_parts_def py_last_def normalize_key_token_def FKEYS_def fallback_binding_def
      List.map_filter_simps)

section \<open>Properties of the hotkey listener\<close>

lemma fires_props:
  "fires l e \<Longrightarrow> presses_token t e \<Longrightarrow>
     t \<notin> active_tokens l \<and> t \<in> active_tokens (fst (listener_step l e))
     \<and> fst (g_HOTKEY_KEY (fst e)) \<subseteq> active_modifiers l \<and> t = snd (g_HOTKEY_KEY (fst e))"
  by (cases e; cases "snd e")
     (auto simp: fires_def presses_token_def on_press_def split: if_splits option.splits prod.splits)

lemma held_step:
  "t \<in> active_tokens l \<Longrightarrow> \<not> releases_token t e \<Longrightarrow> t \<in> active_tokens (fst (listener_step l e))"
  by (cases e; cases "snd e")
     (auto simp: on_press_def on_release_def releases_token_def Let_def
           split: if_splits option.splits prod.splits)

lemma held_run:
  "t \<in> active_tokens l \<Longrightarrow> \<forall>e \<in> set es. \<not> releases_token t e \<Longrightarrow> t \<in> active_tokens (listener_run l es)"
  by (induction es arbitrary: l) (auto simp: held_step)

lemma listener_run_append: "listener_run l (xs @ ys) = listener_run (listener_run l xs) ys"
  by (induction xs arbitrary: l) auto

lemma modifier_step:
  "m \<in> active_modifiers (fst (listener_step l e)) \<Longrightarrow>
     presses_modifier m e \<or> (m \<in> active_modifiers l \<and> \<not> releases_modifier m e)"
  by (cases e; cases "snd e")
     (auto simp: on_press_def on_release_def presses_modifier_def releases_modifier_def Let_def
           split: if_splits option.splits prod.splits)

lemma modifier_history:
  "m \<in> active_modifiers (listener_run listener_init es) \<Longrightarrow>
     \<exists>a e b. es = a @ e # b \<and> presses_modifier m e \<and> (\<forall>e' \<in> set b. \<not> releases_modifier m e')"
proof (induction es rule: rev_induct)
  case Nil
  then show ?case by (simp add: listener_init_def)
next
  case (snoc x xs)
  from snoc.prems have "m \<in> active_modifiers (fst (listener_step (listener_run listener_init xs) x))"
    by (simp add: listener_run_append)
  then consider "presses_modifier m x"
    | "m \<in> active_modifiers (listener_run listener_init xs)" "\<not> releases_modifier m x"
    using modifier_step by blast
  then show ?case
  proof cases
    case 1
    then have "xs @ [x] = xs @ x # [] \<and> presses_modifier m x \<and> (\<forall>e' \<in> set []. \<not> releases_modifier m e')"
      by simp
    then show ?thesis by blast
  next
    case 2
    with snoc.IH obtain a e b where
      "xs = a @ e # b" "presses_modifier m e" "\<forall>e' \<in> set b. \<not> releases_modifier m e'"
      by blast
    with 2 have "xs @ [x] = a @ e # (b @ [x]) \<and> presses_modifier m e
        \<and> (\<forall>e' \<in> set (b @ [x]). \<not> releases_modifier m e')"
      by auto
    then show ?thesis by blast
  qed
qed

text \<open>
  Claim C8. For every sequence of key events handled by one listener, started with both
  sets empty: when a key-down of token \<open>t\<close> calls \<^verbatim>\<open>toggle_recording\<close>, every modifier the
  binding requires is in \<^verbatim>\<open>active_modifiers\<close> (it was pressed earlier and not released
  since), and a later key-down of \<open>t\<close> calls \<^verbatim>\<open>toggle_recording\<close> again only if a key-up
  of \<open>t\<close> lies between the two.
\<close>

theorem toggle_once_per_press:
  assumes f1: "fires (listener_run listener_init es1) e1"
      and p1: "presses_token t e1"
  shows "(\<forall>m \<in> fst (g_HOTKEY_KEY (fst e1)).
            m \<in> active_modifiers (listener_run listener_init es1)
            \<and> (\<exists>a e b. es1 = a @ e # b \<and> presses_modifier m e
                  \<and> (\<forall>e' \<in> set b. \<not> releases_modifier m e')))
         \<and> (fires (listener_run listener_init (es1 @ e1 # mid)) e2 \<and> presses_token t e2
              \<longrightarrow> (\<exists>e \<in> set mid. releases_token t e))"
proof -
  let ?l1 = "listener_run listener_init es1"
  from fires_props [OF f1 p1] have
    in1: "t \<in> active_tokens (fst (listener_step ?l1 e1))"
    and mods: "fst (g_HOTKEY_KEY (fst e1)) \<subseteq> active_modifiers ?l1"
    by blast+
  have part1: "\<forall>m \<in> fst (g_HOTKEY_KEY (fst e1)).
            m \<in> active_modifiers ?l1
            \<and> (\<exists>a e b. es1 = a @ e # b \<and> presses_modifier m e
                  \<and> (\<forall>e' \<in> set b. \<not> releases_modifier m e'))"
    using mods modifier_history by blast
  have part2: "\<exists>e \<in> set mid. releases_token t e"
    if f2: "fires (listener_run listener_init (es1 @ e1 # mid)) e2" and p2: "presses_token t e2"
  proof (rule ccontr)
    assume "\<not> (\<exists>e \<in> set mid. releases_token t e)"
    then have "\<forall>e \<in> set mid. \<not> releases_token t e" by blast
    with in1 have "t \<in> active_tokens (listener_run (fst (listener_step ?l1 e1)) mid)"
      by (rule held_run)
    then have "t \<in> active_tokens (listener_run listener_init (es1 @ e1 # mid))"
      by (simp add: listener_run_append)
    moreover from fires_props [OF f2 p2]
    have "t \<notin> active_tokens (listener_run listener_init (es1 @ e1 # mid))" by blast
    ultimately show False by contradiction
  qed
  from part1 part2 show ?thesis by blast
qed


lemma modifier_name_examples: "modifier_name (Key ''ctrl_l'') = Some CTRL" "modifier_name (Key ''f9'') = None"
  by (simp_all add: modifier_name_def MODIFIER_LOOKUP_def MODIFIER_MAP_def)
lemma event_to_token_examples: "event_to_token (Key ''f9'') = Some ''F9''" "event_to_token (Key ''ctrl_l'') = None"
  by (simp_all add: event_to_token_def FKEYS_def)

theorem toggle_once_per_press_witness:
  "fires (listener_run listener_init [(example_globals, Press (Key ''ctrl_l''))]) (example_globals, Press (Key ''f9''))
   \<and> presses_token ''F9'' (example_globals, Press (Key ''f9''))
   \<and> fires (listener_run listener_init
        ([(example_globals, Press (Key ''ctrl_l''))] @ (example_globals, Press (Key ''f9'')) # [(example_globals, Release (Key ''f9''))]))
        (example_globals, Press (Key ''f9''))
   \<and> (\<exists>e \<in> set [(example_globals, Release (Key ''f9''))]. releases_token ''F9'' e)
   \<and> CTRL \<in> active_modifiers (listener_run listener_init [(example_globals, Press (Key ''ctrl_l''))])"
proof -
  have f1: "fires (listener_run listener_init [(example_globals, Press (Key ''ctrl_l''))]) (example_globals, Press (Key ''f9''))"
    by (simp add: fires_def on_press_def listener_init_def example_globals_def is_esc_def modifier_name_examples event_to_token_examples)
  have p1: "presses_token ''F9'' (example_globals, Press (Key ''f9''))"
    by (simp add: presses_token_def event_to_token_examples)
  have f2: "fires (listener_run listener_init
        ([(example_globals, Press (Key ''ctrl_l''))] @ (example_globals, Press (Key ''f9'')) # [(example_globals, Release (Key ''f9''))]))
        (example_globals, Press (Key ''f9''))"
    by (simp add: fires_def on_press_def on_release_def listener_init_def example_globals_def is_esc_def modifier_name_examples event_to_token_examples)
  have m: "CTRL \<in> fst (g_HOTKEY_KEY (fst (example_globals, Press (Key ''f9''))))"
    by (simp add: example_globals_def)
  from toggle_once_per_press [OF f1 p1, of "[(example_globals, Release (Key ''f9''))]" "(example_globals, Press (Key ''f9''))"] f1 p1 f2 m
  show ?thesis by blast
qed


text \<open>
  Claim C2. The round trip \<^verbatim>\<open>parse_hotkey(key_to_config_string(b)) == b\<close> fails for the
  binding with no modifiers and the key token \<^verbatim>\<open>+\<close>, a single printable character that
  \<^verbatim>\<open>event_to_token\<close> and \<^verbatim>\<open>normalize_key_token\<close> both accept: its config string is
  \<^verbatim>\<open>"+"\<close>, every part of which is empty after the split, so parsing gives the fallback.
\<close>

theorem hotkey_roundtrip_plus_key:
  "event_to_token (KeyCode (Some ''+'')) = Some ''+''
   \<and> normalize_key_token ''+'' = Some ''+''
   \<and> key_to_config_string ({}, ''+'') = ''+''
   \<and> parse_hotkey (key_to_config_string ({}, ''+'')) = Inr ({}, ''F9'')
   \<and> parse_hotkey (key_to_config_string ({}, ''+'')) \<noteq> Inr ({}, ''+'')"
  by (simp add: event_to_token_def FKEYS_def normalize_key_token_def parse_hotkey_def
      key_to_config_string_def MODIFIER_MAP_keys_def strip_def is_space_def upper_def
      upper_char_def hotkey_parts_def fallback_binding_def)

section \<open>Properties of the recording session\<close>


lemma start_try_idle:
  "\<not> recording s \<Longrightarrow> stream s = None \<Longrightarrow> start_recording_try env s = Inl (exc, s') \<Longrightarrow>
     recording s' \<or> stream s' = None"
  by (auto simp: start_recording_try_def Let_def notify_def split: sum.splits if_splits)

lemma start_keeps_idle:
  "(recording s \<or> stream s = None) \<Longrightarrow>
   (recording (snd (start_recording env s)) \<or> stream (snd (start_recording env s)) = None)"
  by (auto simp: start_recording_def start_recording_try_def Let_def notify_def print_stderr_def
      split: sum.splits if_splits prod.splits)

lemma stop_keeps_idle:
  "(recording s \<or> stream s = None) \<Longrightarrow>
   (recording (snd (stop_recording env s)) \<or> stream (snd (stop_recording env s)) = None)"
  by (auto simp: stop_recording_def Let_def notify_def split: sum.splits if_splits option.splits)

lemma reachable_idle: "reachable s \<Longrightarrow> recording s \<or> stream s = None"
proof (induction rule: reachable.induct)
  case reachable_init
  then show ?case by (simp add: initial_state_def)
next
  case (reachable_start s env)
  from reachable_start.IH show ?case by (rule start_keeps_idle)
next
  case (reachable_stop s env)
  from reachable_stop.IH show ?case by (rule stop_keeps_idle)
next
  case (reachable_callback s indata)
  then show ?case by (auto simp: recording_callback_def split: option.splits)
qed

text \<open>
  Claim C7. From every reachable state with \<^verbatim>\<open>recording == False\<close>, when the device lookup
  has returned and the stream cannot be acquired (the \<^verbatim>\<open>InputStream\<close> constructor or
  \<^verbatim>\<open>stream.start()\<close> raises), \<^verbatim>\<open>start_recording\<close> returns without an exception, the
  state still has \<^verbatim>\<open>recording == False\<close> and no stream handle, the queue is dropped, the
  failure is printed to \<^verbatim>\<open>stderr\<close> and, when notifications are enabled, notified.
\<close>

theorem start_recording_failure_atomic:
  assumes r: "reachable s" and idle: "\<not> recording s"
      and dev: "find_device_index_by_name env = Inr idx"
      and fail: "InputStream env idx = Inl exc
                 \<or> (\<exists>h. InputStream env idx = Inr h \<and> stream_start env h = Inl exc)"
  shows "fst (start_recording env s) = None
         \<and> \<not> recording (snd (start_recording env s))
         \<and> stream (snd (start_recording env s)) = None
         \<and> AUDIO_QUEUE (snd (start_recording env s)) = None
         \<and> stderr (snd (start_recording env s))
             = stderr s @ [''[ERROR] start_recording failed: '' @ exc_text exc]
         \<and> (notifications_enabled env \<longrightarrow>
              notifications (snd (start_recording env s))
                = notifications s @ [''Unable to start recording: '' @ exc_text exc])"
proof -
  from r idle have ns: "stream s = None"
    using reachable_idle by blast
  from fail have t: "start_recording_try env (s\<lparr>device_idx := idx\<rparr>)
      = Inl (exc, s\<lparr>device_idx := idx, AUDIO_QUEUE := Some []\<rparr>)"
    by (auto simp: start_recording_try_def Let_def)
  show ?thesis
    using idle dev ns by (simp add: start_recording_def t notify_def print_stderr_def)
qed

theorem start_recording_failure_atomic_witness:
  "reachable initial_state \<and> \<not> recording initial_state
   \<and> fst (start_recording failing_env initial_state) = None
   \<and> \<not> recording (snd (start_recording failing_env initial_state))
   \<and> stream (snd (start_recording failing_env initial_state)) = None
   \<and> stderr (snd (start_recording failing_env initial_state))
       = [''[ERROR] start_recording failed: Error opening InputStream'']
   \<and> notifications (snd (start_recording failing_env initial_state))
       = [''Unable to start recording: Error opening InputStream'']"
proof -
  have r: "reachable initial_state" by (rule reachable_init)
  have i: "\<not> recording initial_state" by (simp add: initial_state_def)
  have d: "find_device_index_by_name failing_env = Inr None" by (simp add: failing_env_def)
  have f: "InputStream failing_env None = Inl (StreamError ''Error opening InputStream'')
     \<or> (\<exists>h. InputStream failing_env None = Inr h
           \<and> stream_start failing_env h = Inl (StreamError ''Error opening InputStream''))"
    by (simp add: failing_env_def)
  have n: "notifications_enabled failing_env" by (simp add: failing_env_def)
  from start_recording_failure_atomic [OF r i d f] r i n show ?thesis
    by (simp add: initial_state_def)
qed

text \<open>
  The device lookup runs before the \<^verbatim>\<open>try\<close> block: an exception it raises leaves
  \<^verbatim>\<open>start_recording\<close>, with the state untouched.
\<close>

lemma start_recording_device_lookup_raises:
  "\<not> recording s \<Longrightarrow> find_device_index_by_name env = Inl exc \<Longrightarrow>
     start_recording env s = (Some exc, s)"
  by (simp add: start_recording_def)


section \<open>Properties of dropping short runs\<close>


lemma length_clear_slice [simp]: "length (clear_slice c a b) = length c"
  by (simp add: clear_slice_def)

lemma nth_clear_slice [simp]:
  "i < length c \<Longrightarrow> clear_slice c a b ! i = (if a \<le> i \<and> i < b then False else c ! i)"
  by (simp add: clear_slice_def)

lemma flatnonzero_from:
  "filter (\<lambda>i. c ! i) [a..<n] = v # vs \<Longrightarrow>
     a \<le> v \<and> v < n \<and> c ! v \<and> (\<forall>t. a \<le> t \<and> t < v \<longrightarrow> \<not> c ! t) \<and> vs = filter (\<lambda>i. c ! i) [Suc v..<n]"
proof (induction "n - a" arbitrary: a)
  case 0
  then show ?case by simp
next
  case (Suc d)
  then have an: "a < n" by simp
  then have up: "[a..<n] = a # [Suc a..<n]" by (simp add: upt_conv_Cons)
  show ?case
  proof (cases "c ! a")
    case True
    with Suc.prems up an show ?thesis by auto
  next
    case False
    with Suc.prems up have f: "filter (\<lambda>i. c ! i) [Suc a..<n] = v # vs" by simp
    from Suc.hyps(2) have "d = n - Suc a" by simp
    from Suc.hyps(1) [OF this f] have ih: "Suc a \<le> v" "v < n" "c ! v"
      "\<And>t. Suc a \<le> t \<Longrightarrow> t < v \<Longrightarrow> \<not> c ! t" "vs = filter (\<lambda>i. c ! i) [Suc v..<n]"
      by blast+
    have "\<not> c ! t" if "a \<le> t" "t < v" for t
    proof (cases "t = a")
      case True
      with False show ?thesis by simp
    next
      case ne: False
      with that have "Suc a \<le> t" by simp
      with ih(4) that show ?thesis by blast
    qed
    with ih show ?thesis by auto
  qed
qed

lemma flatnonzero_empty:
  "filter (\<lambda>i. c ! i) [a..<n] = [] \<Longrightarrow> a \<le> t \<Longrightarrow> t < n \<Longrightarrow> \<not> c ! t"
  by (auto simp: filter_empty_conv)

lemma close_run:
  assumes inv: "run_state_ok k c start prev count"
      and stop: "Suc prev = length c \<or> \<not> c ! Suc prev"
      and c2: "c2 = (if count < k then clear_slice c start (prev + 1) else c)"
  shows "runs_before_ok k c2 (Suc prev)"
  unfolding runs_before_ok_def
proof (intro allI impI)
  fix i j
  assume h: "is_run c2 i j \<and> j < Suc prev"
  from inv have sp: "start \<le> prev" and pl: "prev < length c"
    and alltrue: "\<And>t. start \<le> t \<Longrightarrow> t \<le> prev \<Longrightarrow> c ! t"
    and left: "start = 0 \<or> \<not> c ! (start - 1)"
    and cnt: "count = int (prev - start + 1)"
    and before: "runs_before_ok k c start"
    by (auto simp: run_state_ok_def)
  from h have ij: "i \<le> j" and jl: "j \<le> prev"
    and tr: "\<And>t. i \<le> t \<Longrightarrow> t \<le> j \<Longrightarrow> c2 ! t"
    and lmax: "i = 0 \<or> \<not> c2 ! (i - 1)"
    and rmax: "j + 1 = length c2 \<or> \<not> c2 ! (j + 1)"
    by (auto simp: is_run_def)
  have len2: "length c2 = length c" by (simp add: c2)
  show "k \<le> int (j - i + 1)"
  proof (cases "count < k")
    case True
    then have c2n: "\<And>t. t < length c \<Longrightarrow> c2 ! t = (if start \<le> t \<and> t < prev + 1 then False else c ! t)"
      by (simp add: c2)
    from tr [of j] ij have "c2 ! j" by simp
    with c2n [of j] jl pl have js: "j < start" and cj: "c ! j"
      by (auto split: if_splits)
    with left have j1: "Suc j < start"
      by (metis Suc_lessI diff_Suc_1 less_nat_zero_code)
    have "is_run c i j"
      unfolding is_run_def
    proof (intro conjI)
      show "i \<le> j" by (rule ij)
      show "j < length c" using jl pl by simp
      show "\<forall>t \<in> {i..j}. c ! t"
      proof
        fix t assume "t \<in> {i..j}"
        then have "i \<le> t" "t \<le> j" by simp_all
        with tr have "c2 ! t" by blast
        moreover have "t < length c" using \<open>t \<le> j\<close> jl pl by simp
        ultimately show "c ! t" using c2n [of t] by (auto split: if_splits)
      qed
      show "i = 0 \<or> \<not> c ! (i - 1)"
        using lmax c2n [of "i - 1"] ij js pl sp by (auto split: if_splits)
      show "j + 1 = length c \<or> \<not> c ! (j + 1)"
        using rmax c2n [of "j + 1"] j1 pl sp len2 by (auto split: if_splits)
    qed
    with before js show ?thesis
      unfolding runs_before_ok_def by blast
  next
    case False
    then have cc: "c2 = c" by (simp add: c2)
    show ?thesis
    proof (cases "j < start")
      case True
      with h cc before show ?thesis unfolding runs_before_ok_def by blast
    next
      case False
      then have sj: "start \<le> j" by simp
      have jp: "j = prev"
      proof (rule ccontr)
        assume "j \<noteq> prev"
        with jl have "j + 1 \<le> prev" by simp
        with sj alltrue [of "j + 1"] have "c ! (j + 1)" by simp
        moreover have "j + 1 < length c" using \<open>j + 1 \<le> prev\<close> pl by simp
        ultimately show False using rmax cc by simp
      qed
      have istart: "i = start"
      proof (rule ccontr)
        assume ne: "i \<noteq> start"
        show False
        proof (cases "i < start")
          case True
          then have "i \<le> start - 1" "start - 1 \<le> j" "start \<noteq> 0" using sj by simp_all
          with tr [of "start - 1"] cc left show False by simp
        next
          case False
          with ne have "start \<le> i - 1" "i - 1 \<le> prev" "i \<noteq> 0" using ij jl by simp_all
          with alltrue [of "i - 1"] lmax cc show False by simp
        qed
      qed
      from \<open>\<not> count < k\<close> cnt jp istart show ?thesis by simp
    qed
  qed
qed


lemma loop_invariant:
  assumes "run_state_ok k c start prev count"
      and "vs = filter (\<lambda>i. c ! i) [Suc prev..<length c]"
      and "drop_short_runs_loop k c start prev count vs = (c', start', prev', count')"
  shows "length c' = length c \<and> (\<forall>i<length c. c' ! i \<longrightarrow> c ! i)
         \<and> run_state_ok k c' start' prev' count'
         \<and> (\<forall>t. prev' < t \<and> t < length c \<longrightarrow> \<not> c' ! t)"
  using assms
proof (induction vs arbitrary: c start prev count)
  case Nil
  from Nil.prems(2) have "filter (\<lambda>i. c ! i) [Suc prev..<length c] = []" by simp
  then have "\<And>t. Suc prev \<le> t \<Longrightarrow> t < length c \<Longrightarrow> \<not> c ! t"
    by (rule flatnonzero_empty)
  then have "\<forall>t. prev < t \<and> t < length c \<longrightarrow> \<not> c ! t"
    by (simp add: Suc_le_eq)
  with Nil.prems(1,3) show ?case by simp
next
  case (Cons v vs)
  from Cons.prems(2) have f: "filter (\<lambda>i. c ! i) [Suc prev..<length c] = v # vs" by simp
  from flatnonzero_from [OF f] have v: "Suc prev \<le> v" "v < length c" "c ! v"
    and gap: "\<And>t. Suc prev \<le> t \<Longrightarrow> t < v \<Longrightarrow> \<not> c ! t"
    and vs: "vs = filter (\<lambda>i. c ! i) [Suc v..<length c]"
    by blast+
  from Cons.prems(1) have sp: "start \<le> prev" and pl: "prev < length c"
    and alltrue: "\<And>t. start \<le> t \<Longrightarrow> t \<le> prev \<Longrightarrow> c ! t"
    and left: "start = 0 \<or> \<not> c ! (start - 1)"
    and cnt: "count = int (prev - start + 1)"
    and before: "runs_before_ok k c start"
    by (auto simp: run_state_ok_def)
  show ?case
  proof (cases "v = prev + 1")
    case True
    have "\<And>t. start \<le> t \<Longrightarrow> t \<le> v \<Longrightarrow> c ! t"
      using alltrue v(3) True by (auto simp: le_Suc_eq)
    with sp v True left cnt before have inv: "run_state_ok k c start v (count + 1)"
      by (simp add: run_state_ok_def)
    from Cons.prems(3) True
    have run: "drop_short_runs_loop k c start v (count + 1) vs = (c', start', prev', count')"
      by simp
    from Cons.IH [OF inv vs run] show ?thesis .
  next
    case False
    with v(1) have pv: "Suc prev < v" by simp
    define c2 where "c2 = (if count < k then clear_slice c start (prev + 1) else c)"
    have len2: "length c2 = length c" by (simp add: c2_def)
    have sub: "\<And>t. t < length c \<Longrightarrow> c2 ! t \<Longrightarrow> c ! t"
      by (auto simp: c2_def split: if_splits)
    have same: "\<And>t. prev < t \<Longrightarrow> t < length c \<Longrightarrow> c2 ! t = c ! t"
      by (auto simp: c2_def)
    from pv gap have stop: "Suc prev = length c \<or> \<not> c ! Suc prev" by simp
    from close_run [OF Cons.prems(1) stop c2_def] have ok: "runs_before_ok k c2 (Suc prev)" .
    have ok2: "runs_before_ok k c2 v"
      unfolding runs_before_ok_def
    proof (intro allI impI)
      fix i j assume h: "is_run c2 i j \<and> j < v"
      then have "c2 ! j" "j < length c" by (auto simp: is_run_def len2)
      then have "c ! j" using sub by blast
      with gap h have "j < Suc prev"
        by (meson not_less)
      with ok h show "k \<le> int (j - i + 1)"
        unfolding runs_before_ok_def by blast
    qed
    have "\<not> c ! (v - 1)" using gap [of "v - 1"] pv by simp
    moreover have "v - 1 < length c" using v(2) by simp
    ultimately have "\<not> c2 ! (v - 1)" using sub [of "v - 1"] by blast
    with v pv same [of v] ok2 len2 have inv: "run_state_ok k c2 v v 1"
      by (auto simp: run_state_ok_def le_antisym)
    have vs2: "vs = filter (\<lambda>i. c2 ! i) [Suc v..<length c2]"
      unfolding vs len2
      by (rule filter_cong) (use pv same in auto)
    from Cons.prems(3) False
    have run: "drop_short_runs_loop k c2 v v 1 vs = (c', start', prev', count')"
      by (simp add: c2_def)
    from Cons.IH [OF inv vs2 run] len2 sub show ?thesis by auto
  qed
qed



lemma first_run_state_ok:
  assumes f: "filter (\<lambda>i. msk ! i) [0..<length msk] = first # rest"
  shows "run_state_ok k msk first first 1"
proof -
  from flatnonzero_from [OF f] have first: "first < length msk" "msk ! first"
    and none: "\<And>t. t < first \<Longrightarrow> \<not> msk ! t"
    by simp_all
  have l: "first = 0 \<or> \<not> msk ! (first - 1)"
    using none [of "first - 1"] by (cases first) auto
  have "\<not> (is_run msk i j \<and> j < first)" for i j
  proof
    assume h: "is_run msk i j \<and> j < first"
    then have "msk ! j" by (auto simp: is_run_def)
    with none h show False by blast
  qed
  then have "runs_before_ok k msk first"
    unfolding runs_before_ok_def by blast
  with first l show ?thesis
    by (auto simp: run_state_ok_def le_antisym)
qed


lemma drop_short_runs_length: "length (drop_short_runs msk k) = length msk"
proof (cases "k \<le> 1 \<or> flatnonzero msk = []")
  case True
  then show ?thesis by (auto simp: drop_short_runs_def)
next
  case False
  then obtain first rest where fr: "flatnonzero msk = first # rest"
    by (cases "flatnonzero msk") auto
  obtain c' start' prev' count' where
    run: "drop_short_runs_loop k msk first first 1 rest = (c', start', prev', count')"
    by (cases "drop_short_runs_loop k msk first first 1 rest") auto
  from fr have f: "filter (\<lambda>i. msk ! i) [0..<length msk] = first # rest"
    by (simp add: flatnonzero_def)
  from flatnonzero_from [OF f] have first: "first < length msk" "msk ! first"
    and none: "\<And>t. t < first \<Longrightarrow> \<not> msk ! t"
    and rest: "rest = filter (\<lambda>i. msk ! i) [Suc first..<length msk]"
    by simp_all
  have inv: "run_state_ok k msk first first 1"
    by (rule first_run_state_ok [OF f])
  from loop_invariant [OF inv rest run] have "length c' = length msk" by blast
  with False fr run show ?thesis
    by (simp add: drop_short_runs_def)
qed


















section \<open>Properties of the segmentation\<close>
















lemma apply_vad_min_ratio:
  assumes "apply_vad_outcome env cfg x = Inr (ReturnProcessed p)" and "x \<noteq> []"
  shows "vad_min_output_ratio cfg \<le> real (length p) / real (length x)"
  using assms
  by (auto simp: apply_vad_outcome_def segment_after_classification_def Let_def
      split: if_splits option.splits sum.splits)

subsection \<open>Inputs made of constant frames\<close>

lemma to_pcm16_values [simp]:
  "to_pcm16 1 = 32767" "to_pcm16 0 = 0" "to_pcm16 (1/2) = 16383"
  by (simp_all add: to_pcm16_def clip_def astype_int16_def) 

lemma to_float_values [simp]: "to_float 32767 = 1" "to_float 0 = 0"
  by (simp_all add: to_float_def)













lemma replicate_join:
  "replicate m x @ replicate n x = replicate (m + n) x"
  "replicate m x @ replicate n x @ ys = replicate (m + n) x @ ys"
  by (simp_all add: replicate_add)


lemma doubled_blocks:
  "replicate 480 1 @ replicate 12480 0 @ replicate 480 (1::real)
     = concat (map (replicate 480) [1,0,0,0,0,0,0,0,0,0,0,0,0,0,0,0,0,0,0,0,0,0,0,0,0,0,0,1])"
  by (simp add: replicate_join)










lemma processed_clicks:
  "map to_float (concat [concat (take 14 click_frames), concat (take 14 (drop 1 click_frames))])
     = replicate 480 1 @ replicate 12480 0 @ replicate 480 1"
  unfolding doubled_blocks by (simp add: click_frames_def)






subsection \<open>Inputs of 13 equal frames\<close>













subsection \<open>The claims about \<^verbatim>\<open>apply_vad\<close>\<close>









end
